theory Spec2Isabelle
  imports Main "HOL-Library.Sublist"
begin

section \<open>Regular expressions of the source, matched at the start of a string\<close>

text \<open>
  The two patterns of \<open>processUrl\<close> use literals, alternation, \<open>?\<close>, \<open>+\<close> and the
  negated class \<open>[^/]\<close>, and both are anchored with \<open>^\<close>. \<open>url.match(re)\<close> is only
  tested for truthiness, so the model is a boolean: is there a prefix of the string in
  the language of the pattern. The matcher works with derivatives.
\<close>

datatype regex =
    RNone
  | REps
  | RChr char
  | RNot char
  | RAlt regex regex
  | RSeq regex regex
  | RStar regex

definition ROpt :: "regex \<Rightarrow> regex" where
  "ROpt r = RAlt r REps"

definition RPlus :: "regex \<Rightarrow> regex" where
  "RPlus r = RSeq r (RStar r)"

fun RLit :: "string \<Rightarrow> regex" where
  "RLit [] = REps"
| "RLit (c # cs) = RSeq (RChr c) (RLit cs)"

fun nullable :: "regex \<Rightarrow> bool" where
  "nullable RNone = False"
| "nullable REps = True"
| "nullable (RChr c) = False"
| "nullable (RNot c) = False"
| "nullable (RAlt r s) = (nullable r \<or> nullable s)"
| "nullable (RSeq r s) = (nullable r \<and> nullable s)"
| "nullable (RStar r) = True"

fun deriv :: "char \<Rightarrow> regex \<Rightarrow> regex" where
  "deriv a RNone = RNone"
| "deriv a REps = RNone"
| "deriv a (RChr c) = (if a = c then REps else RNone)"
| "deriv a (RNot c) = (if a = c then RNone else REps)"
| "deriv a (RAlt r s) = RAlt (deriv a r) (deriv a s)"
| "deriv a (RSeq r s) =
     (if nullable r then RAlt (RSeq (deriv a r) s) (deriv a s) else RSeq (deriv a r) s)"
| "deriv a (RStar r) = RSeq (deriv a r) (RStar r)"

text \<open>\<open>match_start r s\<close>: the truthiness of \<open>s.match(/^r/)\<close>.\<close>

fun match_start :: "regex \<Rightarrow> string \<Rightarrow> bool" where
  "match_start r [] = nullable r"
| "match_start r (a # s) = (nullable r \<or> match_start (deriv a r) s)"

text \<open>The words a pattern matches in full, as the reference semantics of the matcher.\<close>

inductive matches :: "regex \<Rightarrow> string \<Rightarrow> bool" where
  m_eps: "matches REps []"
| m_chr: "matches (RChr c) [c]"
| m_not: "a \<noteq> c \<Longrightarrow> matches (RNot c) [a]"
| m_altl: "matches r w \<Longrightarrow> matches (RAlt r s) w"
| m_altr: "matches s w \<Longrightarrow> matches (RAlt r s) w"
| m_seq: "matches r u \<Longrightarrow> matches s v \<Longrightarrow> matches (RSeq r s) (u @ v)"
| m_star0: "matches (RStar r) []"
| m_star: "matches r (a # u) \<Longrightarrow> matches (RStar r) v \<Longrightarrow> matches (RStar r) (a # u @ v)"

section \<open>processUrl\<close>

text \<open>\<open>/^(https?:\/\/|mailto:|\/)/\<close>\<close>

definition re_absolute :: regex where
  "re_absolute =
     RAlt (RSeq (RLit ''http'') (RSeq (ROpt (RChr CHR ''s'')) (RLit ''://'')))
          (RAlt (RLit ''mailto:'') (RLit ''/''))"

text \<open>\<open>/^[^/]+\.[^/]+/\<close>\<close>

definition re_domain :: regex where
  "re_domain =
     RSeq (RPlus (RNot CHR ''/'')) (RSeq (RChr CHR ''.'') (RPlus (RNot CHR ''/'')))"

definition processUrl :: "string \<Rightarrow> string" where
  "processUrl url =
     (if match_start re_absolute url then url
      else if match_start re_domain url then ''https://'' @ url
      else ''/'' @ url)"


section \<open>The document tree\<close>

text \<open>
  The editor works on Slate's immutable document: a document holds an ordered list of
  nodes, a node is a block, an inline or a text, and a text is a list of characters that
  each carry one character of text and a set of mark types. Keys identify nodes. The
  \<open>data\<close> mapping of a node is read by none of the functions below and is left out.
\<close>

type_synonym key = nat

record character =
  ch_text :: string
  ch_marks :: "string set"

datatype node =
    Block key string bool "node list"
  | Inline key string bool "node list"
  | Text key "character list"

fun is_block :: "node \<Rightarrow> bool" where
  "is_block (Block k t v ns) = True"
| "is_block n = False"

fun node_key :: "node \<Rightarrow> key" where
  "node_key (Block k t v ns) = k"
| "node_key (Inline k t v ns) = k"
| "node_key (Text k cs) = k"


fun node_isVoid :: "node \<Rightarrow> bool" where
  "node_isVoid (Block k t v ns) = v"
| "node_isVoid (Inline k t v ns) = v"
| "node_isVoid (Text k cs) = False"


record slate_document =
  doc_key :: key
  doc_nodes :: "node list"

record slate_selection =
  anchorKey :: "key option"
  anchorOffset :: nat
  focusKey :: "key option"
  focusOffset :: nat
  isFocused :: bool

text \<open>
  A snapshot is the document with the selection. The handlers also read the blocks that
  Slate derives from the selection (\<open>state.anchorBlock\<close>, \<open>state.focusBlock\<close>,
  \<open>state.startBlock\<close>, each \<open>null\<close> while the selection is unset); the state a handler
  receives carries them as fields, as the source reads them.
\<close>

record snapshot =
  document :: slate_document
  selection :: slate_selection

record state = snapshot +
  anchorBlock :: "node option"
  focusBlock :: "node option"
  startBlock :: "node option"

datatype js_error = TypeError | StructuralError | ReferenceError

subsection \<open>Immutable.js list operations used by the source\<close>

definition newline :: string where
  "newline = [CHR 0x0A]"


fun indexOf :: "'a list \<Rightarrow> 'a \<Rightarrow> int" where
  "indexOf [] v = - 1"
| "indexOf (x # xs) v =
     (if x = v then 0 else (let r = indexOf xs v in if r < 0 then - 1 else r + 1))"

definition list_insert :: "nat \<Rightarrow> 'a \<Rightarrow> 'a list \<Rightarrow> 'a list" where
  "list_insert i x xs = take i xs @ x # drop i xs"

subsection \<open>Slate node queries read by the source\<close>

text \<open>
  Modelled from the spec: \<open>getFirstText\<close> is Slate's and missing from the sources; the
  spec reads it as the block's first text node. It is the first text below a node in
  document order, \<open>null\<close> when there is none.
\<close>

fun getFirstText :: "node \<Rightarrow> node option"
  and firstTextIn :: "node list \<Rightarrow> node option" where
  "getFirstText (Block k t v ns) = firstTextIn ns"
| "getFirstText (Inline k t v ns) = firstTextIn ns"
| "getFirstText (Text k cs) = None"
| "firstTextIn [] = None"
| "firstTextIn (Text k cs # ns) = Some (Text k cs)"
| "firstTextIn (n # ns) =
     (case getFirstText n of Some t \<Rightarrow> Some t | None \<Rightarrow> firstTextIn ns)"

text \<open>
  Modelled from the spec: \<open>getBlocks\<close> is Slate's and missing from the sources; the spec
  reads \<open>doc.getBlocks().isEmpty()\<close> as "zero block children". The model collects the
  leaf blocks below the document, a leaf block being a block none of whose children is
  a block, and skips children that are not blocks; the result is empty exactly when
  the document has no block child (lemma \<open>getBlocks_empty_iff\<close>).
\<close>

fun getBlocksAsArray :: "node \<Rightarrow> node list" where
  "getBlocksAsArray (Block k t v ns) =
     (if list_all (\<lambda>n. \<not> is_block n) ns then [Block k t v ns]
      else concat (map getBlocksAsArray ns))"
| "getBlocksAsArray n = []"

definition getBlocks :: "slate_document \<Rightarrow> node list" where
  "getBlocks doc = concat (map getBlocksAsArray (doc_nodes doc))"

text \<open>
  Modelled from the spec: the keys of the nodes below the document, the "node keys"
  an operation may address (Slate's \<open>hasDescendant\<close>, missing from the sources).
\<close>

fun node_keys :: "node \<Rightarrow> key list" where
  "node_keys (Block k t v ns) = k # concat (map node_keys ns)"
| "node_keys (Inline k t v ns) = k # concat (map node_keys ns)"
| "node_keys (Text k cs) = [k]"

definition hasDescendant :: "slate_document \<Rightarrow> key \<Rightarrow> bool" where
  "hasDescendant doc k = (k \<in> set (concat (map node_keys (doc_nodes doc))))"

section \<open>Transforms as the handlers build them\<close>

text \<open>
  A handler builds a transform by chaining calls on \<open>state.transform()\<close> and commits
  it with \<open>apply(options)\<close>. The model of a handler returns the chain as a list of calls
  in the order they are made, whether \<open>e.preventDefault()\<close> was called, and the \<open>save\<close>
  option passed to \<open>apply\<close> (\<open>None\<close> when \<open>apply\<close> got no options). A handler that
  returns \<open>undefined\<close> returns \<open>None\<close>; a thrown TypeError is \<open>Inl TypeError\<close>.
\<close>

datatype transform_op =
    DeleteBackward nat
  | UnwrapBlock string
  | WrapBlock string
  | SetBlock string
  | InsertBlock string
  | InsertBlockNode node
  | InsertText string
  | InsertFragment slate_document
  | InsertNodeByKey key nat node
  | CollapseToStartOf node
  | Focus
  | Undo
  | Redo
  | ToggleMark string

record outcome =
  prevented :: bool
  ops :: "transform_op list"
  apply_save :: "bool option"

record key_data =
  key :: string
  isMod :: bool
  isShift :: bool


subsection \<open>Tag tables\<close>

definition BLOCK_TAGS :: "(string \<times> string) list" where
  "BLOCK_TAGS =
     [(''p'', ''paragraph''), (''li'', ''list-item''), (''ul'', ''bulleted-list''),
      (''ol'', ''numbered-list''), (''blockquote'', ''quote''), (''pre'', ''code''),
      (''h1'', ''heading-one''), (''h2'', ''heading-two''), (''h3'', ''heading-three''),
      (''h4'', ''heading-four''), (''h5'', ''heading-five''), (''h6'', ''heading-six'')]"

definition MARK_TAGS :: "(string \<times> string) list" where
  "MARK_TAGS =
     [(''strong'', ''bold''), (''em'', ''italic''), (''u'', ''underline''),
      (''s'', ''strikethrough''), (''del'', ''strikethrough''), (''code'', ''code'')]"

subsection \<open>SoftBreak and BackspaceCloseBlock\<close>








section \<open>The Editor component\<close>

subsection \<open>Constructor\<close>

text \<open>
  \<open>SlateBlock.create\<close> and \<open>SlateText.createFromString\<close> draw fresh keys from Slate's
  key generator; the model takes the next key \<open>g\<close> as an argument. The text is created
  first (it is an argument of the block's creation).
\<close>

definition createDefaultBlock :: "key \<Rightarrow> node" where
  "createDefaultBlock g = Block (g + 1) ''paragraph'' False [Text g []]"



definition unsetSelection :: slate_selection where
  "unsetSelection =
     \<lparr>anchorKey = None, anchorOffset = 0, focusKey = None, focusOffset = 0,
      isFocused = False\<rparr>"



subsection \<open>The schema rule for documents\<close>

text \<open>
  \<open>validate\<close> returns \<open>null\<close> for a valid document and the failure value \<open>{}\<close> otherwise;
  \<open>normalize\<close> extends the transform it is given by two calls.
\<close>

definition rule_validate :: "slate_document \<Rightarrow> unit option" where
  "rule_validate doc = (let hasBlocks = (getBlocks doc \<noteq> []) in if hasBlocks then None else Some ())"

definition rule_normalize :: "key \<Rightarrow> slate_document \<Rightarrow> transform_op list" where
  "rule_normalize g doc =
     (let block = Block (g + 1) ''paragraph'' False [Text g []]
      in [InsertNodeByKey (doc_key doc) 0 block, Focus])"

subsection \<open>handleKeyDown, handleMarkClick\<close>

definition marks :: "(string \<times> string) list" where
  "marks =
     [(''b'', ''bold''), (''i'', ''italic''), (''u'', ''underlined''),
      (''s'', ''strikethrough''), (''`'', ''code'')]"

definition handleKeyDown :: "key \<Rightarrow> key_data \<Rightarrow> state \<Rightarrow> js_error + outcome option" where
  "handleKeyDown g data st =
     (case
        (if key data = ''enter'' then
           (case focusBlock st of
              None \<Rightarrow> Inl TypeError
            | Some fb \<Rightarrow>
                (let doc = document st;
                     focusBlockIndex = indexOf (doc_nodes doc) fb;
                     focusBlockIsTopLevel = (focusBlockIndex > - 1);
                     focusBlockIsFirstChild = (focusBlockIndex = 0);
                     singleBlockSelected = (anchorBlock st = focusBlock st)
                 in if node_isVoid fb \<and> focusBlockIsTopLevel \<and> singleBlockSelected then
                      (let newBlock = createDefaultBlock g;
                           newBlockIndex = (if focusBlockIsFirstChild then 0 else nat (focusBlockIndex + 1))
                       in Inr (Some \<lparr>prevented = True,
                                ops = [InsertNodeByKey (doc_key doc) newBlockIndex newBlock,
                                       CollapseToStartOf newBlock],
                                apply_save = None\<rparr>))
                    else Inr None))
         else Inr None)
      of
        Inl err \<Rightarrow> Inl err
      | Inr (Some out) \<Rightarrow> Inr (Some out)
      | Inr None \<Rightarrow>
          (if isMod data then
             (if key data = ''y'' then
                Inr (Some \<lparr>prevented = True, ops = [Redo, Focus], apply_save = Some False\<rparr>)
              else if key data = ''z'' then
                Inr (Some \<lparr>prevented = True,
                       ops = [if isShift data then Redo else Undo, Focus],
                       apply_save = Some False\<rparr>)
              else case map_of marks (key data) of
                Some mark \<Rightarrow>
                  Inr (Some \<lparr>prevented = True, ops = [ToggleMark mark], apply_save = None\<rparr>)
              | None \<Rightarrow> Inr None)
           else Inr None))"

definition handleMarkClick :: "string \<Rightarrow> outcome" where
  "handleMarkClick type = \<lparr>prevented = True, ops = [Focus, ToggleMark type], apply_save = None\<rparr>"

section \<open>createSerializer\<close>

text \<open>
  A plugin descriptor with its \<open>toBlock\<close> function over attribute values of type \<open>'a\<close>.
  The serializer state records each string passed to \<open>state.write\<close> (\<open>state_write\<close>
  below).
\<close>

record 'a plugin =
  plugin_id :: string
  plugin_label :: string
  plugin_fields :: "string list"
  toBlock :: "'a \<Rightarrow> string"

record 'a pm_node =
  node_kind :: string
  attrs :: 'a

record serializer_state =
  written :: "string list"

definition state_write :: "serializer_state \<Rightarrow> string \<Rightarrow> serializer_state" where
  "state_write state content = state\<lparr>written := written state @ [content]\<rparr>"

type_synonym 'a node_serializer = "serializer_state \<Rightarrow> 'a pm_node \<Rightarrow> serializer_state"

text \<open>
  The first statement of \<open>createSerializer\<close> reads the identifier
  \<open>defaultMarkdownSerializer\<close>, which is free in the function. \<open>scope\<close> is what the
  enclosing scope binds it to, the serializer's node table, or \<open>None\<close> when nothing
  binds it; reading an unbound identifier throws a ReferenceError. With a binding, the
  function stores one entry per plugin in the table, a later plugin replacing the entry
  of an earlier one with the same id.
\<close>

definition createSerializer ::
  "(string \<rightharpoonup> 'a node_serializer) option \<Rightarrow> 'a plugin list
     \<Rightarrow> js_error + (string \<rightharpoonup> 'a node_serializer)" where
  "createSerializer scope plugins =
     (case scope of
        None \<Rightarrow> Inl ReferenceError
      | Some defaultNodes \<Rightarrow>
          Inr (fold (\<lambda>plugin nodes.
                 nodes(''plugin_'' @ plugin_id plugin \<mapsto>
                   (\<lambda>state node. state_write state (toBlock plugin (attrs node) @ newline @ newline))))
               plugins defaultNodes))"


section \<open>The transform engine\<close>

text \<open>
  Modelled from the spec: the transform engine that runs the calls a handler chains is
  Slate and is missing from the sources. The operations below follow the spec:
  \<open>insertNodeByKey(parentKey, index, node)\<close> is a structural insert at an explicit
  address and fails with a Structural error on an out-of-range position (4.3);
  \<open>collapseToStartOf(node)\<close> and \<open>focus()\<close> are selection-only mutations, and an
  unknown node key is a Structural error (4.3); after the normalization's insert the
  cursor is in the new block (4.2); \<open>insertBlock\<close> "inserts a new block at a computed
  position" (4.3), which replaces an empty block (4.4 rule 6, scenario 4) and follows a
  block whose end holds the cursor (scenario 6), the cursor moving into the new block;
  \<open>deleteBackward(n)\<close> deletes the \<open>n\<close> characters before the cursor. The insert
  below a node other than the document, the same operations in other positions and
  every other operation are not described further and are a parameter of the model
  (\<open>eng_other\<close>), as is the key the generator gives to a block that \<open>insertBlock\<close>
  creates (\<open>eng_key\<close>).
\<close>

record engine =
  eng_key :: key
  eng_other :: "transform_op \<Rightarrow> snapshot \<Rightarrow> js_error + snapshot"

text \<open>
  Modelled from the spec: the start of a node is offset 0 of its first text (Slate's
  \<open>collapseToStartOf\<close>, missing from the sources).
\<close>

definition startText :: "node \<Rightarrow> node option" where
  "startText n = (case n of Text k cs \<Rightarrow> Some n | _ \<Rightarrow> getFirstText n)"

definition collapseTo :: "key \<Rightarrow> nat \<Rightarrow> slate_selection \<Rightarrow> slate_selection" where
  "collapseTo k off sel =
     sel\<lparr>anchorKey := Some k, anchorOffset := off, focusKey := Some k, focusOffset := off\<rparr>"

text \<open>
  Modelled from the spec: the keys of the texts below a node, and the texts a cursor
  can be in: those below the block children of the document (a document's children are
  blocks; Slate's own bookkeeping, missing from the sources).
\<close>

fun text_keys :: "node \<Rightarrow> key list" where
  "text_keys (Block k t v ns) = concat (map text_keys ns)"
| "text_keys (Inline k t v ns) = concat (map text_keys ns)"
| "text_keys (Text k cs) = [k]"

definition cursor_keys :: "slate_document \<Rightarrow> key list" where
  "cursor_keys doc = concat (map text_keys (filter is_block (doc_nodes doc)))"

text \<open>
  Modelled from the spec: a selection that is not in a text of the document is put at
  the start of the document's first text, and is unset when there is none (Slate's
  selection normalization, missing from the sources; the spec's 4.2 has the cursor in
  the paragraph that the normalization inserts into an empty document).
\<close>

definition normalizeSelection :: "slate_document \<Rightarrow> slate_selection \<Rightarrow> slate_selection" where
  "normalizeSelection doc sel =
     (if (case anchorKey sel of None \<Rightarrow> False | Some k \<Rightarrow> k \<in> set (cursor_keys doc)) \<and>
         (case focusKey sel of None \<Rightarrow> False | Some k \<Rightarrow> k \<in> set (cursor_keys doc))
      then sel
      else case firstTextIn (filter is_block (doc_nodes doc)) of
        Some t \<Rightarrow> collapseTo (node_key t) 0 sel
      | None \<Rightarrow> sel\<lparr>anchorKey := None, anchorOffset := 0, focusKey := None, focusOffset := 0\<rparr>)"

text \<open>
  Modelled from the spec: the block the cursor is in, for a collapsed selection in a
  block child of the document: the index of the first block child that has the text
  (Slate's \<open>startBlock\<close> bookkeeping, missing from the sources).
\<close>

fun find_index :: "('a \<Rightarrow> bool) \<Rightarrow> 'a list \<Rightarrow> nat option" where
  "find_index P [] = None"
| "find_index P (x # xs) =
     (if P x then Some 0 else map_option Suc (find_index P xs))"

definition cursorBlock :: "snapshot \<Rightarrow> (nat \<times> key \<times> nat) option" where
  "cursorBlock s =
     (case anchorKey (selection s) of
        None \<Rightarrow> None
      | Some k \<Rightarrow>
          if focusKey (selection s) = Some k \<and>
             focusOffset (selection s) = anchorOffset (selection s)
          then map_option (\<lambda>i. (i, k, anchorOffset (selection s)))
                 (find_index (\<lambda>n. is_block n \<and> k \<in> set (text_keys n))
                    (doc_nodes (document s)))
          else None)"

definition set_nodes :: "node list \<Rightarrow> snapshot \<Rightarrow> snapshot" where
  "set_nodes ns s = s\<lparr>document := (document s)\<lparr>doc_nodes := ns\<rparr>\<rparr>"

text \<open>
  Modelled from the spec: one call of a transform, on the snapshot (Slate's transform
  methods, missing from the sources; see the section's introduction). \<open>insertBlock\<close>
  and \<open>deleteBackward\<close> are given for a cursor in a block child of the document that
  holds a single text.
\<close>

fun run_op :: "engine \<Rightarrow> transform_op \<Rightarrow> snapshot \<Rightarrow> js_error + snapshot" where
  "run_op eng (InsertNodeByKey k i n) s =
     (if k = doc_key (document s) then
        (if i \<le> length (doc_nodes (document s))
         then (let s1 = set_nodes (list_insert i n (doc_nodes (document s))) s
               in Inr (s1\<lparr>selection := normalizeSelection (document s1) (selection s1)\<rparr>))
         else Inl StructuralError)
      else eng_other eng (InsertNodeByKey k i n) s)"
| "run_op eng (CollapseToStartOf n) s =
     (case startText n of
        None \<Rightarrow> Inl StructuralError
      | Some t \<Rightarrow>
          if hasDescendant (document s) (node_key t)
          then Inr (s\<lparr>selection := collapseTo (node_key t) 0 (selection s)\<rparr>)
          else Inl StructuralError)"
| "run_op eng Focus s = Inr (s\<lparr>selection := (selection s)\<lparr>isFocused := True\<rparr>\<rparr>)"
| "run_op eng (InsertBlock ty) s =
     (case cursorBlock s of
        None \<Rightarrow> eng_other eng (InsertBlock ty) s
      | Some (i, k, off) \<Rightarrow>
          (case doc_nodes (document s) ! i of
             Block kb t False [Text kt cs] \<Rightarrow>
               (let new = Block (eng_key eng + 1) ty False [Text (eng_key eng) []]
                in if cs = [] then
                     Inr ((set_nodes ((doc_nodes (document s))[i := new]) s)
                            \<lparr>selection := collapseTo (eng_key eng) 0 (selection s)\<rparr>)
                   else if off = length cs then
                     Inr ((set_nodes (list_insert (i + 1) new (doc_nodes (document s))) s)
                            \<lparr>selection := collapseTo (eng_key eng) 0 (selection s)\<rparr>)
                   else eng_other eng (InsertBlock ty) s)
           | _ \<Rightarrow> eng_other eng (InsertBlock ty) s))"
| "run_op eng (DeleteBackward n) s =
     (case cursorBlock s of
        None \<Rightarrow> eng_other eng (DeleteBackward n) s
      | Some (i, k, off) \<Rightarrow>
          (case doc_nodes (document s) ! i of
             Block kb t False [Text kt cs] \<Rightarrow>
               (if n \<le> off \<and> off \<le> length cs then
                  Inr ((set_nodes ((doc_nodes (document s))
                          [i := Block kb t False [Text kt (take (off - n) cs @ drop off cs)]]) s)
                         \<lparr>selection := collapseTo kt (off - n) (selection s)\<rparr>)
                else eng_other eng (DeleteBackward n) s)
           | _ \<Rightarrow> eng_other eng (DeleteBackward n) s))"
| "run_op eng other s = eng_other eng other s"

text \<open>
  Modelled from the spec: a chain of calls runs in order and stops at the first error
  (Slate's transform, missing from the sources; the spec's "fail fast").
\<close>

fun run_ops :: "engine \<Rightarrow> transform_op list \<Rightarrow> snapshot \<Rightarrow> js_error + snapshot" where
  "run_ops eng [] s = Inr s"
| "run_ops eng (x # xs) s =
     (case run_op eng x s of Inl err \<Rightarrow> Inl err | Inr s' \<Rightarrow> run_ops eng xs s')"

text \<open>
  Modelled from the spec: the schema rule "runs after every transform" (Slate's schema
  normalization, missing from the sources): while \<open>validate\<close> reports a failure for the
  document, the rule's \<open>normalize\<close> extends the transform and the result is checked again.
\<close>

function enforce_rule :: "engine \<Rightarrow> key \<Rightarrow> snapshot \<Rightarrow> js_error + snapshot" where
  "enforce_rule eng g s =
     (case rule_validate (document s) of
        None \<Rightarrow> Inr s
      | Some failure \<Rightarrow>
          (case run_ops eng (rule_normalize g (document s)) s of
             Inl err \<Rightarrow> Inl err
           | Inr s' \<Rightarrow> enforce_rule eng g s'))"
  by pat_completeness auto

termination enforce_rule
proof (relation "measure (\<lambda>(eng, g, s). if rule_validate (document s) = None then 0 else 1)")
  show "wf (measure (\<lambda>(eng, g, s). if rule_validate (document s) = None then 0 else 1))"
    by simp
next
  fix eng g s failure s'
  assume invalid: "rule_validate (document s) = Some failure"
    and normalized: "run_ops eng (rule_normalize g (document s)) s = Inr s'"
  from normalized
  have "doc_nodes (document s') =
          Block (g + 1) ''paragraph'' False [Text g []] # doc_nodes (document s)"
    by (auto simp: rule_normalize_def list_insert_def set_nodes_def Let_def)
  then have "rule_validate (document s') = None"
    by (simp add: rule_validate_def getBlocks_def)
  with invalid
  show "((eng, g, s'), (eng, g, s))
          \<in> measure (\<lambda>(eng, g, s). if rule_validate (document s) = None then 0 else 1)"
    by simp
qed

declare enforce_rule.simps [simp del]

text \<open>
  The snapshot after the calls of the rule's \<open>normalize\<close> have run: the new paragraph
  is the first node of the document, and the selection is normalized on that document
  and focused.
\<close>

definition normalized :: "key \<Rightarrow> snapshot \<Rightarrow> snapshot" where
  "normalized g s =
     (let s1 = set_nodes (Block (g + 1) ''paragraph'' False [Text g []] # doc_nodes (document s)) s
      in s1\<lparr>selection := (normalizeSelection (document s1) (selection s1))\<lparr>isFocused := True\<rparr>\<rparr>)"



subsection \<open>toggleMark\<close>

text \<open>
  Modelled from the spec: \<open>toggleMark(markType)\<close> of the transform engine (Slate's,
  missing from the sources): "if any selected text lacks the mark, add it to all selected
  text; if all selected text already has it, remove it from all". The characters of the
  document are given as the text before the selection, the selected text and the text
  after it; only the selected characters change.
\<close>

definition addMark :: "string \<Rightarrow> character \<Rightarrow> character" where
  "addMark m c = c\<lparr>ch_marks := insert m (ch_marks c)\<rparr>"

definition removeMark :: "string \<Rightarrow> character \<Rightarrow> character" where
  "removeMark m c = c\<lparr>ch_marks := ch_marks c - {m}\<rparr>"

definition toggleMark ::
  "string \<Rightarrow> character list \<times> character list \<times> character list
     \<Rightarrow> character list \<times> character list \<times> character list" where
  "toggleMark m t =
     (case t of (before, selected, after) \<Rightarrow>
        (before,
         (if list_ex (\<lambda>c. m \<notin> ch_marks c) selected
          then map (addMark m) selected
          else map (removeMark m) selected),
         after))"


section \<open>Scenarios\<close>

text \<open>
  Concrete data for the scenarios of the spec's section 8: a paragraph, a void shortcode
  block, a code block that ends in a newline, an empty quote block, and the state of an
  editor whose selection lies in one block \<open>b\<close> (in its text with key \<open>k\<close>) of a document
  with top-level nodes \<open>ns\<close>. The example engine gives key 40 to the block that
  \<open>insertBlock\<close> creates and lets every operation it is asked to supply empty the
  document.
\<close>

definition plain :: "string \<Rightarrow> character" where
  "plain c = \<lparr>ch_text = c, ch_marks = {}\<rparr>"

definition marked :: "string \<Rightarrow> string \<Rightarrow> character" where
  "marked m c = \<lparr>ch_text = c, ch_marks = {m}\<rparr>"

definition ex_paragraph :: node where
  "ex_paragraph = Block 2 ''paragraph'' False [Text 1 [plain ''a'']]"

definition ex_shortcode :: node where
  "ex_shortcode = Block 4 ''shortcode'' True [Text 3 []]"


definition ex_quote :: node where
  "ex_quote = Block 2 ''quote'' False [Text 1 []]"

definition ex_state :: "node list \<Rightarrow> node \<Rightarrow> key \<Rightarrow> state" where
  "ex_state ns b k =
     \<lparr>document = \<lparr>doc_key = 0, doc_nodes = ns\<rparr>,
      selection = \<lparr>anchorKey = Some k, anchorOffset = 0, focusKey = Some k, focusOffset = 0,
                   isFocused = True\<rparr>,
      anchorBlock = Some b, focusBlock = Some b, startBlock = Some b\<rparr>"




definition enter :: key_data where
  "enter = \<lparr>key = ''enter'', isMod = False, isShift = False\<rparr>"


definition ex_engine :: engine where
  "ex_engine =
     \<lparr>eng_key = 40,
      eng_other = (\<lambda>x s. Inr (s\<lparr>document := (document s)\<lparr>doc_nodes := []\<rparr>\<rparr>))\<rparr>"

definition ex_empty :: snapshot where
  "ex_empty = \<lparr>document = \<lparr>doc_key = 0, doc_nodes = []\<rparr>, selection = unsetSelection\<rparr>"


section \<open>Properties of the matcher\<close>

inductive_cases m_epsE[elim!]: "matches REps w"
inductive_cases m_noneE[elim!]: "matches RNone w"
inductive_cases m_chrE[elim!]: "matches (RChr c) w"
inductive_cases m_notE[elim!]: "matches (RNot c) w"
inductive_cases m_altE[elim!]: "matches (RAlt r s) w"
inductive_cases m_seqE[elim!]: "matches (RSeq r s) w"
inductive_cases m_starE: "matches (RStar r) w"

lemma m_seq_nil: "matches r [] \<Longrightarrow> matches s [] \<Longrightarrow> matches (RSeq r s) []"
  using m_seq[of r "[]" s "[]"] by simp

lemma m_seq_left_nil: "matches r [] \<Longrightarrow> matches s w \<Longrightarrow> matches (RSeq r s) w"
  using m_seq[of r "[]" s w] by simp

lemma m_seq_cons: "matches r (a # u) \<Longrightarrow> matches s v \<Longrightarrow> matches (RSeq r s) (a # u @ v)"
  using m_seq[of r "a # u" s v] by simp

lemma nullable_iff: "nullable r \<longleftrightarrow> matches r []"
  by (induction r) (auto intro: matches.intros m_seq_nil)

lemma star_unfold_cons:
  "matches (RStar r) (a # w) \<longleftrightarrow> (\<exists>u v. w = u @ v \<and> matches r (a # u) \<and> matches (RStar r) v)"
proof
  assume "matches (RStar r) (a # w)"
  then show "\<exists>u v. w = u @ v \<and> matches r (a # u) \<and> matches (RStar r) v"
    by (cases rule: matches.cases) auto
next
  assume "\<exists>u v. w = u @ v \<and> matches r (a # u) \<and> matches (RStar r) v"
  then show "matches (RStar r) (a # w)"
    by (auto intro: m_star)
qed

lemma seq_cons:
  "matches (RSeq r s) (a # w) \<longleftrightarrow>
     (\<exists>u v. w = u @ v \<and> matches r (a # u) \<and> matches s v) \<or> (matches r [] \<and> matches s (a # w))"
proof
  assume "matches (RSeq r s) (a # w)"
  then obtain u v where uv: "a # w = u @ v" "matches r u" "matches s v"
    by (cases rule: matches.cases) auto
  show "(\<exists>u v. w = u @ v \<and> matches r (a # u) \<and> matches s v) \<or> (matches r [] \<and> matches s (a # w))"
  proof (cases u)
    case Nil
    with uv show ?thesis by simp
  next
    case (Cons b u')
    with uv show ?thesis by auto
  qed
next
  assume "(\<exists>u v. w = u @ v \<and> matches r (a # u) \<and> matches s v) \<or> (matches r [] \<and> matches s (a # w))"
  then show "matches (RSeq r s) (a # w)"
    by (auto intro: m_seq_cons m_seq_left_nil)
qed

lemma deriv_iff: "matches (deriv a r) w \<longleftrightarrow> matches r (a # w)"
proof (induction r arbitrary: w)
  case (RSeq r s)
  show ?case
  proof (cases "nullable r")
    case True
    then show ?thesis
      using RSeq by (auto simp: seq_cons nullable_iff intro: matches.intros)
  next
    case False
    then show ?thesis
      using RSeq by (auto simp: seq_cons nullable_iff intro: matches.intros)
  qed
next
  case (RStar r)
  then show ?case
    by (auto simp: star_unfold_cons intro: matches.intros)
qed (auto intro: matches.intros)

lemma match_start_iff: "match_start r s \<longleftrightarrow> (\<exists>p. prefix p s \<and> matches r p)"
proof (induction s arbitrary: r)
  case Nil
  then show ?case by (simp add: nullable_iff)
next
  case (Cons a s)
  show ?case
    by (auto simp: Cons.IH nullable_iff deriv_iff prefix_Cons)
qed


lemma matches_eps_iff: "matches REps w \<longleftrightarrow> w = []"
  by (auto intro: matches.intros)

lemma matches_chr_iff: "matches (RChr c) w \<longleftrightarrow> w = [c]"
  by (auto intro: matches.intros)

lemma matches_seq_iff: "matches (RSeq r s) w \<longleftrightarrow> (\<exists>u v. w = u @ v \<and> matches r u \<and> matches s v)"
  by (auto intro: matches.intros)

lemma matches_alt_iff: "matches (RAlt r s) w \<longleftrightarrow> matches r w \<or> matches s w"
  by (auto intro: matches.intros)

lemma matches_opt_iff: "matches (ROpt r) w \<longleftrightarrow> matches r w \<or> w = []"
  by (auto simp: ROpt_def intro: matches.intros)

lemma matches_RLit: "matches (RLit s) w \<longleftrightarrow> w = s"
proof (induction s arbitrary: w)
  case Nil
  show ?case by (simp add: matches_eps_iff)
next
  case (Cons c cs)
  show ?case by (simp add: matches_seq_iff matches_chr_iff Cons.IH)
qed

lemma star_not_sound: "matches r w \<Longrightarrow> r = RStar (RNot c) \<Longrightarrow> c \<notin> set w"
  by (induction rule: matches.induct) auto

lemma star_not_complete: "c \<notin> set w \<Longrightarrow> matches (RStar (RNot c)) w"
proof (induction w)
  case Nil
  show ?case by (rule m_star0)
next
  case (Cons a w)
  then have "matches (RNot c) (a # [])" "matches (RStar (RNot c)) w"
    by (auto intro: matches.intros)
  then have "matches (RStar (RNot c)) (a # [] @ w)" by (rule m_star)
  then show ?case by simp
qed

lemma matches_star_not: "matches (RStar (RNot c)) w \<longleftrightarrow> c \<notin> set w"
  using star_not_sound star_not_complete by blast

lemma matches_plus_not: "matches (RPlus (RNot c)) w \<longleftrightarrow> w \<noteq> [] \<and> c \<notin> set w"
proof
  assume "matches (RPlus (RNot c)) w"
  then show "w \<noteq> [] \<and> c \<notin> set w"
    by (auto simp: RPlus_def matches_star_not)
next
  assume a: "w \<noteq> [] \<and> c \<notin> set w"
  then obtain a v where w: "w = a # v" by (cases w) auto
  with a have "matches (RNot c) [a]" "matches (RStar (RNot c)) v"
    by (auto intro: matches.intros simp: matches_star_not)
  then have "matches (RSeq (RNot c) (RStar (RNot c))) ([a] @ v)" by (rule m_seq)
  with w show "matches (RPlus (RNot c)) w" by (simp add: RPlus_def)
qed

lemma matches_absolute:
  "matches re_absolute p \<longleftrightarrow> p = ''http://'' \<or> p = ''https://'' \<or> p = ''mailto:'' \<or> p = ''/''"
  unfolding re_absolute_def matches_alt_iff matches_seq_iff matches_opt_iff matches_RLit matches_chr_iff
  by auto

lemma match_start_absolute:
  "match_start re_absolute url \<longleftrightarrow>
     prefix ''http://'' url \<or> prefix ''https://'' url \<or> prefix ''mailto:'' url \<or> prefix ''/'' url"
  unfolding match_start_iff matches_absolute by blast

lemma matches_domain:
  "matches re_domain p \<longleftrightarrow>
     (\<exists>a b. p = a @ CHR ''.'' # b \<and> a \<noteq> [] \<and> CHR ''/'' \<notin> set a \<and> b \<noteq> [] \<and> CHR ''/'' \<notin> set b)"
  unfolding re_domain_def matches_seq_iff matches_plus_not matches_chr_iff
  by auto

lemma match_start_domain:
  "match_start re_domain url \<longleftrightarrow>
     (\<exists>a d rest. url = a @ CHR ''.'' # d # rest \<and> a \<noteq> [] \<and> CHR ''/'' \<notin> set a \<and> d \<noteq> CHR ''/'')"
proof
  assume "match_start re_domain url"
  then obtain p a b where p: "prefix p url" "p = a @ CHR ''.'' # b" "a \<noteq> []" "CHR ''/'' \<notin> set a"
      "b \<noteq> []" "CHR ''/'' \<notin> set b"
    unfolding match_start_iff matches_domain by blast
  from p(5) obtain d b' where b: "b = d # b'" by (cases b) auto
  from p(1) obtain q where "url = p @ q" by (auto simp: prefix_def)
  with p b have "url = a @ CHR ''.'' # d # (b' @ q)" "d \<noteq> CHR ''/''" by auto
  with p show "\<exists>a d rest. url = a @ CHR ''.'' # d # rest \<and> a \<noteq> [] \<and> CHR ''/'' \<notin> set a \<and> d \<noteq> CHR ''/''"
    by blast
next
  assume "\<exists>a d rest. url = a @ CHR ''.'' # d # rest \<and> a \<noteq> [] \<and> CHR ''/'' \<notin> set a \<and> d \<noteq> CHR ''/''"
  then obtain a d rest where u: "url = a @ CHR ''.'' # d # rest" "a \<noteq> []" "CHR ''/'' \<notin> set a" "d \<noteq> CHR ''/''"
    by blast
  have "prefix (a @ CHR ''.'' # [d]) url" using u(1) by (simp add: prefix_def)
  moreover have "matches re_domain (a @ CHR ''.'' # [d])"
    unfolding matches_domain using u
    by (intro exI[of _ a] exI[of _ "[d]"]) simp
  ultimately show "match_start re_domain url"
    unfolding match_start_iff by blast
qed

section \<open>Properties of processUrl\<close>

text \<open>
  C10. \<open>processUrl\<close> returns the url unchanged when it begins with \<open>http://\<close>,
  \<open>https://\<close>, \<open>mailto:\<close> or \<open>/\<close>; otherwise it prepends \<open>https://\<close> when the url
  begins with one or more characters other than \<open>/\<close>, then a dot, then a character other
  than \<open>/\<close>; otherwise it prepends \<open>/\<close>.
\<close>

theorem processUrl_spec:
  "processUrl url =
     (if prefix ''http://'' url \<or> prefix ''https://'' url \<or> prefix ''mailto:'' url \<or> prefix ''/'' url
      then url
      else if (\<exists>a d rest. url = a @ CHR ''.'' # d # rest \<and> a \<noteq> [] \<and> CHR ''/'' \<notin> set a \<and> d \<noteq> CHR ''/'')
      then ''https://'' @ url
      else ''/'' @ url)"
  unfolding processUrl_def match_start_absolute match_start_domain by simp

section \<open>Properties of handleKeyDown\<close>

text \<open>
  C7. With the platform modifier held, \<open>z\<close> performs undo, or redo when shift is held
  too, and \<open>y\<close> performs redo; in each case the transform is applied with
  \<open>save: false\<close>. (The source also focuses the selection and prevents the default.)
\<close>

theorem handleKeyDown_undo_redo:
  "isMod data \<Longrightarrow>
     (key data = ''z'' \<longrightarrow>
        handleKeyDown g data st =
          Inr (Some \<lparr>prevented = True, ops = [if isShift data then Redo else Undo, Focus],
                     apply_save = Some False\<rparr>)) \<and>
     (key data = ''y'' \<longrightarrow>
        handleKeyDown g data st =
          Inr (Some \<lparr>prevented = True, ops = [Redo, Focus], apply_save = Some False\<rparr>))"
  by (simp add: handleKeyDown_def)

theorem handleKeyDown_undo_redo_witness:
  "handleKeyDown 10 \<lparr>key = ''z'', isMod = True, isShift = False\<rparr>
       (ex_state [ex_paragraph] ex_paragraph 1) =
     Inr (Some \<lparr>prevented = True, ops = [Undo, Focus], apply_save = Some False\<rparr>) \<and>
   handleKeyDown 10 \<lparr>key = ''z'', isMod = True, isShift = True\<rparr>
       (ex_state [ex_paragraph] ex_paragraph 1) =
     Inr (Some \<lparr>prevented = True, ops = [Redo, Focus], apply_save = Some False\<rparr>) \<and>
   handleKeyDown 10 \<lparr>key = ''y'', isMod = True, isShift = False\<rparr>
       (ex_state [ex_paragraph] ex_paragraph 1) =
     Inr (Some \<lparr>prevented = True, ops = [Redo, Focus], apply_save = Some False\<rparr>)"
  using
    handleKeyDown_undo_redo [of "\<lparr>key = ''z'', isMod = True, isShift = False\<rparr>" 10
      "ex_state [ex_paragraph] ex_paragraph 1"]
    handleKeyDown_undo_redo [of "\<lparr>key = ''z'', isMod = True, isShift = True\<rparr>" 10
      "ex_state [ex_paragraph] ex_paragraph 1"]
    handleKeyDown_undo_redo [of "\<lparr>key = ''y'', isMod = True, isShift = False\<rparr>" 10
      "ex_state [ex_paragraph] ex_paragraph 1"]
  by simp

text \<open>
  With the modifier held, \<open>b\<close>, \<open>i\<close>, \<open>s\<close> and the backquote toggle the mark types
  \<open>bold\<close>, \<open>italic\<close>, \<open>strikethrough\<close> and \<open>code\<close>.
\<close>

lemma handleKeyDown_mod_marks:
  "handleKeyDown g \<lparr>key = ''b'', isMod = True, isShift = sh\<rparr> st =
     Inr (Some \<lparr>prevented = True, ops = [ToggleMark ''bold''], apply_save = None\<rparr>)"
  "handleKeyDown g \<lparr>key = ''i'', isMod = True, isShift = sh\<rparr> st =
     Inr (Some \<lparr>prevented = True, ops = [ToggleMark ''italic''], apply_save = None\<rparr>)"
  "handleKeyDown g \<lparr>key = ''s'', isMod = True, isShift = sh\<rparr> st =
     Inr (Some \<lparr>prevented = True, ops = [ToggleMark ''strikethrough''], apply_save = None\<rparr>)"
  "handleKeyDown g \<lparr>key = ''`'', isMod = True, isShift = sh\<rparr> st =
     Inr (Some \<lparr>prevented = True, ops = [ToggleMark ''code''], apply_save = None\<rparr>)"
  by (simp_all add: handleKeyDown_def marks_def)

text \<open>
  C6. The claim has the modifier with \<open>u\<close> toggle the mark type \<open>underline\<close>, the name
  the mark tag table gives for \<open>u\<close>. The key table of \<open>handleKeyDown\<close> names
  \<open>underlined\<close> instead: with any state and either shift position, the handler toggles
  \<open>underlined\<close>, which is not the type of \<open>MARK_TAGS\<close>.
\<close>

theorem handleKeyDown_mod_u:
  "handleKeyDown g \<lparr>key = ''u'', isMod = True, isShift = sh\<rparr> st =
     Inr (Some \<lparr>prevented = True, ops = [ToggleMark ''underlined''], apply_save = None\<rparr>) \<and>
   map_of MARK_TAGS ''u'' = Some ''underline'' \<and>
   handleKeyDown g \<lparr>key = ''u'', isMod = True, isShift = sh\<rparr> st \<noteq>
     Inr (Some \<lparr>prevented = True, ops = [ToggleMark ''underline''], apply_save = None\<rparr>)"
  by (simp add: handleKeyDown_def marks_def MARK_TAGS_def)

subsection \<open>Enter on a void block\<close>

lemma indexOf_range: "- 1 \<le> indexOf xs v \<and> indexOf xs v < int (length xs)"
  by (induction xs) (auto simp: Let_def)

lemma indexOf_nth: "0 \<le> indexOf xs v \<Longrightarrow> xs ! nat (indexOf xs v) = v"
proof (induction xs)
  case Nil
  then show ?case by simp
next
  case (Cons x xs)
  show ?case
  proof (cases "x = v")
    case True
    then show ?thesis by simp
  next
    case False
    with Cons.prems have nonneg: "0 \<le> indexOf xs v"
      by (auto simp: Let_def split: if_splits)
    with False have "indexOf (x # xs) v = indexOf xs v + 1"
      by (simp add: Let_def)
    moreover have "nat (indexOf xs v + 1) = Suc (nat (indexOf xs v))"
      using nonneg by simp
    ultimately show ?thesis using Cons.IH nonneg by simp
  qed
qed

lemma startText_createDefaultBlock: "startText (createDefaultBlock g) = Some (Text g [])"
  by (simp add: startText_def createDefaultBlock_def)

lemma collapseTo_normalize:
  "collapseTo k off (normalizeSelection doc sel) = collapseTo k off sel"
  by (simp add: normalizeSelection_def collapseTo_def split: option.splits)

lemma hasDescendant_insert:
  "hasDescendant (doc\<lparr>doc_nodes := list_insert j (createDefaultBlock g) ns\<rparr>) g"
  by (simp add: hasDescendant_def list_insert_def createDefaultBlock_def)

text \<open>
  C2 (amended). When Enter is pressed while the focus block is a void block, is a child
  of the document (found at index \<open>idx\<close> of its nodes) and is the anchor block too, the
  handler prevents the default, inserts a new default paragraph block below the document
  at index 0 if the void block is the first child and at \<open>idx + 1\<close> otherwise, and
  collapses the selection to the start of the new paragraph. Run on the snapshot, the
  two calls put the new block at that index of the document's nodes and the selection
  at offset 0 of the new block's text. So in the document [paragraph, void block] the
  void block is the second child and the new paragraph follows it, at index 2.
\<close>

theorem handleKeyDown_enter_void:
  assumes "key data = ''enter''"
    and "focusBlock st = Some fb"
    and "anchorBlock st = Some fb"
    and "node_isVoid fb"
    and "indexOf (doc_nodes (document st)) fb = idx"
    and "0 \<le> idx"
    and "j = (if idx = 0 then 0 else nat idx + 1)"
  shows "handleKeyDown g data st =
           Inr (Some \<lparr>prevented = True,
                  ops = [InsertNodeByKey (doc_key (document st)) j (createDefaultBlock g),
                         CollapseToStartOf (createDefaultBlock g)],
                  apply_save = None\<rparr>) \<and>
         run_ops eng [InsertNodeByKey (doc_key (document st)) j (createDefaultBlock g),
                      CollapseToStartOf (createDefaultBlock g)] (snapshot.truncate st) =
           Inr \<lparr>document = (document st)\<lparr>doc_nodes :=
                    take j (doc_nodes (document st)) @ createDefaultBlock g
                      # drop j (doc_nodes (document st))\<rparr>,
                selection = (selection st)\<lparr>anchorKey := Some g, anchorOffset := 0,
                    focusKey := Some g, focusOffset := 0\<rparr>\<rparr> \<and>
         doc_nodes (document st) ! nat idx = fb \<and>
         j \<le> length (doc_nodes (document st))"
proof -
  have range: "idx < int (length (doc_nodes (document st)))"
    using indexOf_range [of "doc_nodes (document st)" fb] assms(5) by simp
  have j: "j \<le> length (doc_nodes (document st))"
    using range assms(6,7) by auto
  have at: "doc_nodes (document st) ! nat idx = fb"
    using indexOf_nth [of "doc_nodes (document st)" fb] assms(5,6) by simp
  have handler: "handleKeyDown g data st =
           Inr (Some \<lparr>prevented = True,
                  ops = [InsertNodeByKey (doc_key (document st)) j (createDefaultBlock g),
                         CollapseToStartOf (createDefaultBlock g)],
                  apply_save = None\<rparr>)"
  proof -
    have "nat (idx + 1) = nat idx + 1" using assms(6) by simp
    then show ?thesis using assms by (simp add: handleKeyDown_def Let_def)
  qed
  have run: "run_ops eng [InsertNodeByKey (doc_key (document st)) j (createDefaultBlock g),
                      CollapseToStartOf (createDefaultBlock g)] (snapshot.truncate st) =
           Inr \<lparr>document = (document st)\<lparr>doc_nodes :=
                    take j (doc_nodes (document st)) @ createDefaultBlock g
                      # drop j (doc_nodes (document st))\<rparr>,
                selection = (selection st)\<lparr>anchorKey := Some g, anchorOffset := 0,
                    focusKey := Some g, focusOffset := 0\<rparr>\<rparr>"
    using j hasDescendant_insert [where doc = "document st" and j = j and g = g
        and ns = "doc_nodes (document st)"]
    by (simp add: startText_createDefaultBlock snapshot.truncate_def list_insert_def
        set_nodes_def Let_def collapseTo_normalize collapseTo_def [symmetric])
  from handler run at j show ?thesis by blast
qed


theorem handleKeyDown_enter_void_witness:
  "handleKeyDown 10 enter (ex_state [ex_shortcode, ex_paragraph] ex_shortcode 3) =
     Inr (Some \<lparr>prevented = True,
            ops = [InsertNodeByKey 0 0 (createDefaultBlock 10),
                   CollapseToStartOf (createDefaultBlock 10)],
            apply_save = None\<rparr>) \<and>
   run_ops ex_engine [InsertNodeByKey 0 0 (createDefaultBlock 10),
                      CollapseToStartOf (createDefaultBlock 10)]
       (snapshot.truncate (ex_state [ex_shortcode, ex_paragraph] ex_shortcode 3)) =
     Inr \<lparr>document = \<lparr>doc_key = 0,
              doc_nodes = [createDefaultBlock 10, ex_shortcode, ex_paragraph]\<rparr>,
          selection = \<lparr>anchorKey = Some 10, anchorOffset = 0, focusKey = Some 10,
              focusOffset = 0, isFocused = True\<rparr>\<rparr> \<and>
   handleKeyDown 10 enter (ex_state [ex_paragraph, ex_shortcode, ex_quote] ex_shortcode 3) =
     Inr (Some \<lparr>prevented = True,
            ops = [InsertNodeByKey 0 2 (createDefaultBlock 10),
                   CollapseToStartOf (createDefaultBlock 10)],
            apply_save = None\<rparr>) \<and>
   run_ops ex_engine [InsertNodeByKey 0 2 (createDefaultBlock 10),
                      CollapseToStartOf (createDefaultBlock 10)]
       (snapshot.truncate (ex_state [ex_paragraph, ex_shortcode, ex_quote] ex_shortcode 3)) =
     Inr \<lparr>document = \<lparr>doc_key = 0,
              doc_nodes = [ex_paragraph, ex_shortcode, createDefaultBlock 10, ex_quote]\<rparr>,
          selection = \<lparr>anchorKey = Some 10, anchorOffset = 0, focusKey = Some 10,
              focusOffset = 0, isFocused = True\<rparr>\<rparr>"
proof -
  let ?st = "ex_state [ex_shortcode, ex_paragraph] ex_shortcode 3"
  let ?st2 = "ex_state [ex_paragraph, ex_shortcode, ex_quote] ex_shortcode 3"
  have h1: "key enter = ''enter''" by (simp add: enter_def)
  have h2: "focusBlock ?st = Some ex_shortcode" by (simp add: ex_state_def)
  have h3: "anchorBlock ?st = Some ex_shortcode" by (simp add: ex_state_def)
  have h4: "node_isVoid ex_shortcode" by (simp add: ex_shortcode_def)
  have h5: "indexOf (doc_nodes (document ?st)) ex_shortcode = 0" by (simp add: ex_state_def)
  have h6: "(0::int) \<le> 0" by simp
  have h7: "(0::nat) = (if (0::int) = 0 then 0 else nat 0 + 1)" by simp
  have k2: "focusBlock ?st2 = Some ex_shortcode" by (simp add: ex_state_def)
  have k3: "anchorBlock ?st2 = Some ex_shortcode" by (simp add: ex_state_def)
  have k5: "indexOf (doc_nodes (document ?st2)) ex_shortcode = 1"
    by (simp add: ex_state_def ex_paragraph_def ex_shortcode_def)
  have k6: "(0::int) \<le> 1" by simp
  have k7: "(2::nat) = (if (1::int) = 0 then 0 else nat 1 + 1)" by simp
  show ?thesis
    using handleKeyDown_enter_void [OF h1 h2 h3 h4 h5 h6 h7, of 10 ex_engine]
      handleKeyDown_enter_void [OF h1 k2 k3 h4 k5 k6 k7, of 10 ex_engine]
    by (simp add: ex_state_def)
qed

text \<open>
  The scenario of the claim as stated: in [paragraph, void shortcode block] with the
  void block selected, the new paragraph is inserted at index 2 and not at index 0, and
  the document becomes [paragraph, void block, new paragraph].
\<close>

theorem scenario5_counterexample:
  "handleKeyDown 10 enter (ex_state [ex_paragraph, ex_shortcode] ex_shortcode 3) =
     Inr (Some \<lparr>prevented = True,
            ops = [InsertNodeByKey 0 2 (createDefaultBlock 10),
                   CollapseToStartOf (createDefaultBlock 10)],
            apply_save = None\<rparr>) \<and>
   handleKeyDown 10 enter (ex_state [ex_paragraph, ex_shortcode] ex_shortcode 3) \<noteq>
     Inr (Some \<lparr>prevented = True,
            ops = [InsertNodeByKey 0 0 (createDefaultBlock 10),
                   CollapseToStartOf (createDefaultBlock 10)],
            apply_save = None\<rparr>) \<and>
   run_ops ex_engine [InsertNodeByKey 0 2 (createDefaultBlock 10),
                      CollapseToStartOf (createDefaultBlock 10)]
       (snapshot.truncate (ex_state [ex_paragraph, ex_shortcode] ex_shortcode 3)) =
     Inr \<lparr>document = \<lparr>doc_key = 0,
              doc_nodes = [ex_paragraph, ex_shortcode, createDefaultBlock 10]\<rparr>,
          selection = \<lparr>anchorKey = Some 10, anchorOffset = 0, focusKey = Some 10,
              focusOffset = 0, isFocused = True\<rparr>\<rparr>"
  by (simp add: handleKeyDown_def enter_def ex_state_def ex_paragraph_def ex_shortcode_def
      createDefaultBlock_def Let_def snapshot.truncate_def list_insert_def startText_def
      hasDescendant_def set_nodes_def normalizeSelection_def cursor_keys_def collapseTo_def)

section \<open>Properties of the schema rule\<close>

lemma getBlocksAsArray_block: "is_block n \<Longrightarrow> getBlocksAsArray n \<noteq> []"
proof (induction n)
  case (Block k t v ns)
  show ?case
  proof (cases "list_all (\<lambda>n. \<not> is_block n) ns")
    case True
    then show ?thesis by simp
  next
    case False
    then obtain c where c: "c \<in> set ns" "is_block c"
      by (auto simp: list_all_iff)
    with Block.IH have "getBlocksAsArray c \<noteq> []" by blast
    with c False show ?thesis by auto
  qed
qed simp_all

lemma getBlocksAsArray_other: "\<not> is_block n \<Longrightarrow> getBlocksAsArray n = []"
  by (cases n) simp_all

lemma getBlocks_empty_iff: "getBlocks doc = [] \<longleftrightarrow> \<not> list_ex is_block (doc_nodes doc)"
  unfolding getBlocks_def list_ex_iff
  using getBlocksAsArray_block getBlocksAsArray_other by auto

lemma rule_validate_iff: "rule_validate doc = None \<longleftrightarrow> list_ex is_block (doc_nodes doc)"
  by (simp add: rule_validate_def getBlocks_empty_iff)

lemma run_normalize: "run_ops eng (rule_normalize g (document s)) s = Inr (normalized g s)"
  by (simp add: rule_normalize_def list_insert_def normalized_def Let_def set_nodes_def)

lemma normalized_nodes:
  "doc_nodes (document (normalized g s)) =
     Block (g + 1) ''paragraph'' False [Text g []] # doc_nodes (document s)"
  by (simp add: normalized_def Let_def set_nodes_def)

lemma normalized_valid: "rule_validate (document (normalized g s)) = None"
  by (simp add: rule_validate_iff normalized_nodes)

lemma enforce_valid: "rule_validate (document s) = None \<Longrightarrow> enforce_rule eng g s = Inr s"
  by (subst enforce_rule.simps) simp

lemma enforce_invalid:
  assumes "rule_validate (document s) \<noteq> None"
  shows "enforce_rule eng g s = Inr (normalized g s)"
proof -
  from assms obtain f where f: "rule_validate (document s) = Some f" by auto
  have "enforce_rule eng g s = enforce_rule eng g (normalized g s)"
    by (subst enforce_rule.simps) (simp add: f run_normalize)
  also have "\<dots> = Inr (normalized g s)"
    by (rule enforce_valid) (rule normalized_valid)
  finally show ?thesis .
qed

lemma enforce_cases:
  "enforce_rule eng g s =
     Inr (if list_ex is_block (doc_nodes (document s)) then s else normalized g s)"
  using enforce_valid [of s eng g] enforce_invalid [of s eng g]
  by (simp add: rule_validate_iff)

lemma enforce_has_block:
  "enforce_rule eng g s = Inr s' \<Longrightarrow> list_ex is_block (doc_nodes (document s'))"
  by (auto simp: enforce_cases normalized_nodes split: if_splits)




lemma no_block_filter: "\<not> list_ex is_block ns \<Longrightarrow> filter is_block ns = []"
  by (induction ns) auto

lemma normalized_cursor:
  assumes "\<not> list_ex is_block (doc_nodes (document s))"
  shows "anchorKey (selection (normalized g s)) = Some g \<and>
         focusKey (selection (normalized g s)) = Some g \<and>
         isFocused (selection (normalized g s))"
  using no_block_filter [OF assms]
  by (auto simp: normalized_def Let_def set_nodes_def normalizeSelection_def cursor_keys_def
      collapseTo_def split: option.splits)




text \<open>
  C4. On a snapshot whose document has no block child, the rule's \<open>normalize\<close> is the
  insertion of one paragraph block with one empty text at index 0 of the document,
  followed by \<open>focus()\<close>; applying the rule gives the document with that block in front
  of its nodes, and the selection is then in the text of the new block, both anchor and
  focus, and focused. Applying the rule to the result of applying it to any snapshot
  changes nothing.
\<close>

theorem normalize_rule:
  "(\<not> list_ex is_block (doc_nodes (document s)) \<longrightarrow>
      rule_normalize g (document s) =
        [InsertNodeByKey (doc_key (document s)) 0 (Block (g + 1) ''paragraph'' False [Text g []]),
         Focus] \<and>
      (\<exists>s'. enforce_rule eng g s = Inr s' \<and>
         doc_nodes (document s') =
           Block (g + 1) ''paragraph'' False [Text g []] # doc_nodes (document s) \<and>
         anchorKey (selection s') = Some g \<and> focusKey (selection s') = Some g \<and>
         isFocused (selection s'))) \<and>
   (\<exists>once. enforce_rule eng g s = Inr once \<and> enforce_rule eng g' once = Inr once)"
proof -
  have idem: "\<exists>once. enforce_rule eng g s = Inr once \<and> enforce_rule eng g' once = Inr once"
  proof -
    obtain once where once: "enforce_rule eng g s = Inr once"
      by (simp add: enforce_cases)
    then have "list_ex is_block (doc_nodes (document once))" by (rule enforce_has_block)
    then have "enforce_rule eng g' once = Inr once" by (simp add: enforce_cases)
    with once show ?thesis by blast
  qed
  have first: "\<not> list_ex is_block (doc_nodes (document s)) \<longrightarrow>
      (\<exists>s'. enforce_rule eng g s = Inr s' \<and>
         doc_nodes (document s') =
           Block (g + 1) ''paragraph'' False [Text g []] # doc_nodes (document s) \<and>
         anchorKey (selection s') = Some g \<and> focusKey (selection s') = Some g \<and>
         isFocused (selection s'))"
    using normalized_cursor [of s g] by (simp add: enforce_cases normalized_nodes)
  from idem first show ?thesis
    by (simp add: rule_normalize_def)
qed

theorem normalize_rule_witness:
  "enforce_rule ex_engine 10 ex_empty =
     Inr \<lparr>document = \<lparr>doc_key = 0, doc_nodes = [Block 11 ''paragraph'' False [Text 10 []]]\<rparr>,
          selection = \<lparr>anchorKey = Some 10, anchorOffset = 0, focusKey = Some 10,
                       focusOffset = 0, isFocused = True\<rparr>\<rparr> \<and>
   enforce_rule ex_engine 30
       \<lparr>document = \<lparr>doc_key = 0, doc_nodes = [Block 11 ''paragraph'' False [Text 10 []]]\<rparr>,
        selection = \<lparr>anchorKey = Some 10, anchorOffset = 0, focusKey = Some 10,
                     focusOffset = 0, isFocused = True\<rparr>\<rparr> =
     Inr \<lparr>document = \<lparr>doc_key = 0, doc_nodes = [Block 11 ''paragraph'' False [Text 10 []]]\<rparr>,
          selection = \<lparr>anchorKey = Some 10, anchorOffset = 0, focusKey = Some 10,
                       focusOffset = 0, isFocused = True\<rparr>\<rparr>"
proof -
  have e: "enforce_rule ex_engine 10 ex_empty =
     Inr \<lparr>document = \<lparr>doc_key = 0, doc_nodes = [Block 11 ''paragraph'' False [Text 10 []]]\<rparr>,
          selection = \<lparr>anchorKey = Some 10, anchorOffset = 0, focusKey = Some 10,
                       focusOffset = 0, isFocused = True\<rparr>\<rparr>"
    by (simp add: enforce_cases ex_empty_def normalized_def Let_def set_nodes_def
        normalizeSelection_def cursor_keys_def collapseTo_def unsetSelection_def)
  show ?thesis
    using normalize_rule [of ex_empty 10 ex_engine 30] e by auto
qed

text \<open>
  The rule is idempotent as a rule, that is with its \<open>validate\<close>: the calls of
  \<open>normalize\<close> alone, run a second time, insert a second paragraph.
\<close>

lemma normalize_calls_twice:
  "run_ops ex_engine (rule_normalize 20 (document (normalized 10 ex_empty)))
       (normalized 10 ex_empty) =
     Inr (normalized 20 (normalized 10 ex_empty)) \<and>
   doc_nodes (document (normalized 20 (normalized 10 ex_empty))) =
     [Block 21 ''paragraph'' False [Text 20 []], Block 11 ''paragraph'' False [Text 10 []]]"
  using run_normalize [of ex_engine 20 "normalized 10 ex_empty"]
  by (simp add: normalized_nodes ex_empty_def)

section \<open>Properties of toggleMark\<close>

lemma addMark_has: "m \<in> ch_marks (addMark m c)"
  by (simp add: addMark_def)

lemma removeMark_lacks: "m \<notin> ch_marks (removeMark m c)"
  by (simp add: removeMark_def)

lemma remove_add: "m \<notin> ch_marks c \<Longrightarrow> removeMark m (addMark m c) = c"
  by (simp add: addMark_def removeMark_def)

lemma add_remove: "m \<in> ch_marks c \<Longrightarrow> addMark m (removeMark m c) = c"
  by (simp add: addMark_def removeMark_def insert_absorb)

lemma remove_add_any: "removeMark m (addMark m c) = removeMark m c"
  by (simp add: addMark_def removeMark_def)

lemma toggle_after_add:
  "toggleMark m (before, map (addMark m) sel, after) = (before, map (removeMark m) sel, after)"
  by (simp add: toggleMark_def list_ex_iff addMark_has remove_add_any)

lemma toggle_after_remove:
  "toggleMark m (before, map (removeMark m) sel, after) =
     (before, (if sel = [] then [] else map (addMark m) (map (removeMark m) sel)), after)"
  by (cases sel) (simp_all add: toggleMark_def removeMark_lacks)

lemma toggleMark_twice_general:
  "toggleMark m (toggleMark m (before, selected, after)) =
     (before,
      (if list_all (\<lambda>c. m \<in> ch_marks c) selected \<or> list_all (\<lambda>c. m \<notin> ch_marks c) selected
       then selected
       else map (removeMark m) selected),
      after)"
proof (cases "list_ex (\<lambda>c. m \<notin> ch_marks c) selected")
  case True
  then have not_all: "\<not> list_all (\<lambda>c. m \<in> ch_marks c) selected"
    by (auto simp: list_ex_iff list_all_iff)
  from True have "toggleMark m (before, selected, after) = (before, map (addMark m) selected, after)"
    by (simp add: toggleMark_def)
  then have twice: "toggleMark m (toggleMark m (before, selected, after)) =
      (before, map (removeMark m) selected, after)"
    by (simp add: toggle_after_add)
  show ?thesis
  proof (cases "list_all (\<lambda>c. m \<notin> ch_marks c) selected")
    case True
    then have "map (removeMark m) selected = selected"
      by (induction selected) (simp_all add: removeMark_def)
    with twice True show ?thesis by simp
  next
    case False
    with twice not_all show ?thesis by simp
  qed
next
  case False
  then have all: "list_all (\<lambda>c. m \<in> ch_marks c) selected"
    by (auto simp: list_ex_iff list_all_iff)
  from False have "toggleMark m (before, selected, after) = (before, map (removeMark m) selected, after)"
    by (simp add: toggleMark_def)
  then have twice: "toggleMark m (toggleMark m (before, selected, after)) =
      (before, (if selected = [] then [] else map (addMark m) (map (removeMark m) selected)), after)"
    by (simp add: toggle_after_remove)
  from all have "map (addMark m) (map (removeMark m) selected) = selected"
    by (induction selected) (simp_all add: add_remove)
  with twice all show ?thesis by auto
qed

text \<open>
  C8 (amended). \<open>toggleMark m\<close> adds \<open>m\<close> to all selected text when any selected text
  lacks \<open>m\<close>, and removes \<open>m\<close> from all selected text when all selected text carries
  \<open>m\<close>. Applied twice over the same selection it returns the text to its original
  marks when the selected text is uniform in \<open>m\<close>: all of it carries \<open>m\<close>, or none of
  it does.
\<close>

theorem toggleMark_twice_uniform:
  assumes "list_all (\<lambda>c. m \<in> ch_marks c) selected \<or> list_all (\<lambda>c. m \<notin> ch_marks c) selected"
  shows "toggleMark m (toggleMark m (before, selected, after)) = (before, selected, after) \<and>
         toggleMark m (before, selected, after) =
           (before,
            (if list_ex (\<lambda>c. m \<notin> ch_marks c) selected
             then map (addMark m) selected else map (removeMark m) selected),
            after)"
  using assms toggleMark_twice_general [of m before selected after]
  by (simp add: toggleMark_def)

theorem toggleMark_twice_uniform_witness:
  "toggleMark ''bold'' (toggleMark ''bold''
       ([plain ''a''], [marked ''bold'' ''b'', marked ''bold'' ''c''], [])) =
     ([plain ''a''], [marked ''bold'' ''b'', marked ''bold'' ''c''], []) \<and>
   toggleMark ''bold'' (toggleMark ''bold'' ([plain ''a''], [plain ''b'', plain ''c''], [])) =
     ([plain ''a''], [plain ''b'', plain ''c''], [])"
proof -
  have h1: "list_all (\<lambda>c. ''bold'' \<in> ch_marks c) [marked ''bold'' ''b'', marked ''bold'' ''c''] \<or>
            list_all (\<lambda>c. ''bold'' \<notin> ch_marks c) [marked ''bold'' ''b'', marked ''bold'' ''c'']"
    by (simp add: marked_def)
  have h2: "list_all (\<lambda>c. ''bold'' \<in> ch_marks c) [plain ''b'', plain ''c''] \<or>
            list_all (\<lambda>c. ''bold'' \<notin> ch_marks c) [plain ''b'', plain ''c'']"
    by (simp add: plain_def)
  show ?thesis
    using toggleMark_twice_uniform [OF h1, of "[plain ''a'']" "[]", THEN conjunct1]
      toggleMark_twice_uniform [OF h2, of "[plain ''a'']" "[]", THEN conjunct1]
    by simp
qed

text \<open>
  The claim as stated: with a bold \<open>a\<close> and a plain \<open>b\<close> selected, toggling bold twice
  does not give back the original marks.
\<close>

theorem toggleMark_twice_counterexample:
  "toggleMark ''bold'' (toggleMark ''bold'' ([], [marked ''bold'' ''a'', plain ''b''], [])) \<noteq>
     ([], [marked ''bold'' ''a'', plain ''b''], [])"
  by (simp add: toggleMark_def plain_def marked_def addMark_def removeMark_def)

section \<open>Properties of the key plugins\<close>













section \<open>Properties of createSerializer\<close>

text \<open>
  With a binding for the identifier, the table has for a plugin that no later plugin
  shares its id with the entry that writes, in one call of \<open>state.write\<close>, the string
  the plugin's \<open>toBlock\<close> returns for the node's attributes followed by two newlines.
\<close>

lemma createSerializer_snoc:
  "createSerializer (Some base) (ps @ [q]) =
     map_sum id (\<lambda>nodes. nodes(''plugin_'' @ plugin_id q \<mapsto>
        (\<lambda>state node. state_write state (toBlock q (attrs node) @ newline @ newline))))
       (createSerializer (Some base) ps)"
  by (simp add: createSerializer_def)

lemma createSerializer_last:
  "plugin_id p \<notin> plugin_id ` set later \<Longrightarrow>
     \<exists>nodes. createSerializer (Some base) (earlier @ p # later) = Inr nodes \<and>
       nodes (''plugin_'' @ plugin_id p) =
         Some (\<lambda>state node. state_write state (toBlock p (attrs node) @ newline @ newline))"
proof (induction later rule: rev_induct)
  case Nil
  show ?case by (simp add: createSerializer_def)
next
  case (snoc q qs)
  then obtain nodes where n: "createSerializer (Some base) (earlier @ p # qs) = Inr nodes"
      "nodes (''plugin_'' @ plugin_id p) =
         Some (\<lambda>state node. state_write state (toBlock p (attrs node) @ newline @ newline))"
    by auto
  have "earlier @ p # qs @ [q] = (earlier @ p # qs) @ [q]" by simp
  then have "createSerializer (Some base) (earlier @ p # qs @ [q]) =
      Inr (nodes(''plugin_'' @ plugin_id q \<mapsto>
        (\<lambda>state node. state_write state (toBlock q (attrs node) @ newline @ newline))))"
    using createSerializer_snoc [of base "earlier @ p # qs" q] n(1) by simp
  moreover from snoc.prems have "plugin_id q \<noteq> plugin_id p" by auto
  ultimately show ?case using n(2) by simp
qed


end
